theory Spec2Isabelle
  imports Main "HOL-Library.Word" "HOL-Library.Sublist"
begin

section \<open>The Devanagari word validator\<close>

text \<open>
  An \<open>icu::UnicodeString\<close> is a sequence of UTF-16 code units; \<open>UChar32\<close> is a signed
  32-bit code point (every value that occurs lies in \<open>0 .. 0x10FFFF\<close>, so it is an \<open>int\<close>
  here). The macros and methods of the ICU library that the validator calls are written out
  after ICU's headers (\<open>utf16.h\<close>, \<open>unistr.h\<close>). What ICU computes from its data files is a
  parameter: the general-category test \<open>u_ispunct\<close> and the character break iterator.
\<close>

type_synonym UChar = "16 word"
type_synonym UChar32 = int
type_synonym UnicodeString = "UChar list"

record icu =
  u_ispunct :: "UChar32 \<Rightarrow> bool"
  characterBreaks :: "UnicodeString \<Rightarrow> nat list option"
    \<comment> \<open>\<open>None\<close>: \<open>createCharacterInstance\<close> failed; \<open>Some bs\<close>: the boundaries that
        \<open>first()\<close>, \<open>next()\<close>, ... return before \<open>DONE\<close>\<close>

definition U16_IS_LEAD :: "UChar \<Rightarrow> bool" where
  "U16_IS_LEAD c \<longleftrightarrow> 0xD800 \<le> uint c \<and> uint c \<le> 0xDBFF"

definition U16_IS_TRAIL :: "UChar \<Rightarrow> bool" where
  "U16_IS_TRAIL c \<longleftrightarrow> 0xDC00 \<le> uint c \<and> uint c \<le> 0xDFFF"

definition U16_GET_SUPPLEMENTARY :: "UChar \<Rightarrow> UChar \<Rightarrow> UChar32" where
  "U16_GET_SUPPLEMENTARY lead trail = uint lead * 1024 + uint trail - 0x35FDC00"

definition U16_LENGTH :: "UChar32 \<Rightarrow> nat" where
  "U16_LENGTH c = (if c \<le> 0xFFFF then 1 else 2)"

definition char32At :: "UnicodeString \<Rightarrow> nat \<Rightarrow> UChar32" where
  "char32At u i =
     (if i < length u then
        (let c = u ! i in
         if U16_IS_LEAD c then
           (if i + 1 \<noteq> length u \<and> U16_IS_TRAIL (u ! (i + 1))
            then U16_GET_SUPPLEMENTARY c (u ! (i + 1)) else uint c)
         else if U16_IS_TRAIL c then
           (if i > 0 \<and> U16_IS_LEAD (u ! (i - 1))
            then U16_GET_SUPPLEMENTARY (u ! (i - 1)) c else uint c)
         else uint c)
      else 0xFFFF)"

text \<open>\<open>U16_BACK_1(s, 0, i)\<close> for \<open>i > 0\<close>: the index of the code point that ends before \<open>i\<close>.\<close>

definition U16_BACK_1 :: "UnicodeString \<Rightarrow> nat \<Rightarrow> nat" where
  "U16_BACK_1 s i =
     (let j = i - 1 in
      if U16_IS_TRAIL (s ! j) \<and> j > 0 \<and> U16_IS_LEAD (s ! (j - 1)) then j - 1 else j)"

subsection \<open>Character classification\<close>

definition isDevanagariConsonant :: "UChar32 \<Rightarrow> bool" where
  "isDevanagariConsonant c \<longleftrightarrow> (c \<ge> 0x0915 \<and> c \<le> 0x0939) \<or> (c \<ge> 0x0958 \<and> c \<le> 0x095F)"

definition isHalant :: "UChar32 \<Rightarrow> bool" where
  "isHalant c \<longleftrightarrow> c = 0x094D"

definition isNukta :: "UChar32 \<Rightarrow> bool" where
  "isNukta c \<longleftrightarrow> c = 0x093C"

definition isDependentVowelSign :: "UChar32 \<Rightarrow> bool" where
  "isDependentVowelSign c \<longleftrightarrow> (c \<ge> 0x093E \<and> c \<le> 0x094C) \<or> (c \<ge> 0x0962 \<and> c \<le> 0x0963)"

definition isIndependentVowel :: "UChar32 \<Rightarrow> bool" where
  "isIndependentVowel c \<longleftrightarrow> c \<ge> 0x0904 \<and> c \<le> 0x0914"

definition isAnusvaraVisargaChandrabindu :: "UChar32 \<Rightarrow> bool" where
  "isAnusvaraVisargaChandrabindu c \<longleftrightarrow> c = 0x0901 \<or> c = 0x0902 \<or> c = 0x0903"

definition isAvagraha :: "UChar32 \<Rightarrow> bool" where
  "isAvagraha c \<longleftrightarrow> c = 0x093D"

definition isZWJorZWNJ :: "UChar32 \<Rightarrow> bool" where
  "isZWJorZWNJ c \<longleftrightarrow> c = 0x200C \<or> c = 0x200D"

definition isDigit :: "UChar32 \<Rightarrow> bool" where
  "isDigit c \<longleftrightarrow> c \<ge> 0x0966 \<and> c \<le> 0x096F"

definition isDandaOrPunctuation :: "icu \<Rightarrow> UChar32 \<Rightarrow> bool" where
  "isDandaOrPunctuation env c \<longleftrightarrow> c = 0x0964 \<or> c = 0x0965 \<or> u_ispunct env c"

definition isAllowedDevanagariChar :: "UChar32 \<Rightarrow> bool" where
  "isAllowedDevanagariChar c \<longleftrightarrow>
     (c \<ge> 0x0900 \<and> c \<le> 0x097F) \<or> (c \<ge> 0xA8E0 \<and> c \<le> 0xA8FF) \<or> isZWJorZWNJ c"

subsection \<open>Grapheme counting\<close>

definition graphemeCount :: "icu \<Rightarrow> UnicodeString \<Rightarrow> int" where
  "graphemeCount env u =
     (if u = [] then 0
      else case characterBreaks env u of
             None \<Rightarrow> int (length u)
           | Some bs \<Rightarrow> (let count = int (length bs) in if count > 0 then count - 1 else 0))"

subsection \<open>The state machine\<close>

datatype State =
    START
  | AFTER_CONSONANT
  | AFTER_HALANT
  | AFTER_INDEPENDENT_VOWEL
  | AFTER_SYLLABLE_WITH_MATRA
  | AFTER_MODIFIER
  | AFTER_AVAGRAHA

text \<open>One pass of the loop body on the code point \<open>c\<close>; \<open>None\<close> is \<open>return false\<close>.\<close>

definition validate_step :: "icu \<Rightarrow> State \<Rightarrow> UChar32 \<Rightarrow> State option" where
  "validate_step env state c =
     (if \<not> isAllowedDevanagariChar c then None
      else if isDigit c \<or> isDandaOrPunctuation env c then None
      else if isDevanagariConsonant c then
        (if state = START \<or> state = AFTER_INDEPENDENT_VOWEL \<or> state = AFTER_SYLLABLE_WITH_MATRA
            \<or> state = AFTER_HALANT \<or> state = AFTER_MODIFIER \<or> state = AFTER_AVAGRAHA
            \<or> state = AFTER_CONSONANT
         then Some AFTER_CONSONANT else None)
      else if isIndependentVowel c then
        (if state = START \<or> state = AFTER_INDEPENDENT_VOWEL \<or> state = AFTER_MODIFIER
            \<or> state = AFTER_AVAGRAHA
         then Some AFTER_INDEPENDENT_VOWEL else None)
      else if isHalant c then
        (if state = AFTER_CONSONANT then Some AFTER_HALANT else None)
      else if isNukta c then
        (if state = AFTER_CONSONANT then Some AFTER_CONSONANT else None)
      else if isDependentVowelSign c then
        (if state = AFTER_CONSONANT then Some AFTER_SYLLABLE_WITH_MATRA else None)
      else if isAnusvaraVisargaChandrabindu c then
        (if state = AFTER_CONSONANT \<or> state = AFTER_INDEPENDENT_VOWEL
            \<or> state = AFTER_SYLLABLE_WITH_MATRA
         then Some AFTER_MODIFIER else None)
      else if isAvagraha c then
        (if state = AFTER_CONSONANT \<or> state = AFTER_INDEPENDENT_VOWEL
            \<or> state = AFTER_SYLLABLE_WITH_MATRA \<or> state = AFTER_MODIFIER
         then Some AFTER_AVAGRAHA else None)
      else if isZWJorZWNJ c then
        (if state = AFTER_HALANT then Some state else None)
      else None)"

function validate_loop :: "icu \<Rightarrow> UnicodeString \<Rightarrow> nat \<Rightarrow> State \<Rightarrow> State option" where
  "validate_loop env u i state =
     (if i < length u then
        (let c = char32At u i in
         case validate_step env state c of
           None \<Rightarrow> None
         | Some state' \<Rightarrow> validate_loop env u (i + U16_LENGTH c) state')
      else Some state)"
  by pat_completeness auto

termination
proof (relation "measure (\<lambda>(env, u, i, state). length u - i)")
  show "wf (measure (\<lambda>(env, u, i, state). length u - i))"
    by simp
next
  fix env :: "'a icu_scheme" and u :: UnicodeString and i :: nat and state c state'
  assume "i < length u" and "c = char32At u i"
  then show "((env, u, i + U16_LENGTH c, state'), (env, u, i, state))
               \<in> measure (\<lambda>(env, u, i, state). length u - i)"
    by (auto simp: U16_LENGTH_def)
qed

declare validate_loop.simps [simp del]

definition isValidDevanagariWord :: "icu \<Rightarrow> UnicodeString \<Rightarrow> bool" where
  "isValidDevanagariWord env u =
     (if u = [] then False
      else if graphemeCount env u < 2 then False
      else case validate_loop env u 0 START of
             None \<Rightarrow> False
           | Some state \<Rightarrow>
               (let lastCharIndex = U16_BACK_1 u (length u);
                    lastChar = char32At u lastCharIndex in
                if isZWJorZWNJ lastChar then False
                else state = AFTER_CONSONANT \<or> state = AFTER_INDEPENDENT_VOWEL
                   \<or> state = AFTER_SYLLABLE_WITH_MATRA \<or> state = AFTER_MODIFIER
                   \<or> state = AFTER_HALANT \<or> state = AFTER_AVAGRAHA))"

section \<open>The transliteration engine\<close>

subsection \<open>Characters and \<open>std::string\<close> operations\<close>

text \<open>
  A \<open>std::string\<close> is a list of bytes. The \<open>ctype\<close> functions are those of the "C" locale:
  only ASCII letters and digits are classified, every other byte is left alone.
\<close>

definition isdigit :: "char \<Rightarrow> bool" where
  "isdigit c \<longleftrightarrow> c \<in> set ''0123456789''"

definition isalpha :: "char \<Rightarrow> bool" where
  "isalpha c \<longleftrightarrow> c \<in> set ''abcdefghijklmnopqrstuvwxyzABCDEFGHIJKLMNOPQRSTUVWXYZ''"

definition isalnum :: "char \<Rightarrow> bool" where
  "isalnum c \<longleftrightarrow> isalpha c \<or> isdigit c"

definition tolower :: "char \<Rightarrow> char" where
  "tolower c =
     (case map_of (zip ''ABCDEFGHIJKLMNOPQRSTUVWXYZ'' ''abcdefghijklmnopqrstuvwxyz'') c of
        Some l \<Rightarrow> l
      | None \<Rightarrow> c)"

text \<open>\<open>s[i]\<close> for \<open>i \<le> s.size()\<close>: the byte at \<open>i\<close>, and the terminating NUL at \<open>s.size()\<close>.\<close>

definition char_at :: "string \<Rightarrow> nat \<Rightarrow> char" where
  "char_at s i = (if i < length s then s ! i else CHR 0x00)"

text \<open>\<open>s.find(needle, pos)\<close>: the first index from \<open>pos\<close> on where \<open>needle\<close> starts; \<open>None\<close> is \<open>npos\<close>.\<close>

fun find_sub :: "string \<Rightarrow> string \<Rightarrow> nat option" where
  "find_sub needle [] = (if needle = [] then Some 0 else None)"
| "find_sub needle (c # cs) =
     (if prefix needle (c # cs) then Some 0 else map_option Suc (find_sub needle cs))"

definition str_find :: "string \<Rightarrow> string \<Rightarrow> nat \<Rightarrow> nat option" where
  "str_find s needle pos =
     (if pos > length s then None else map_option ((+) pos) (find_sub needle (drop pos s)))"

text \<open>\<open>s.replace(pos, n, t)\<close> and \<open>s.substr(pos, n)\<close>, for \<open>pos \<le> s.size()\<close>.\<close>

definition str_replace :: "string \<Rightarrow> nat \<Rightarrow> nat \<Rightarrow> string \<Rightarrow> string" where
  "str_replace s pos n t = take pos s @ t @ drop (pos + n) s"

definition substr :: "string \<Rightarrow> nat \<Rightarrow> nat \<Rightarrow> string" where
  "substr s pos n = take n (drop pos s)"

text \<open>Subtraction of \<open>size_t\<close> values (64 bits) wraps around.\<close>

definition size_t_minus :: "nat \<Rightarrow> nat \<Rightarrow> nat" where
  "size_t_minus a b = (a + 2 ^ 64 - b mod 2 ^ 64) mod 2 ^ 64"

text \<open>
  \<open>static_cast<int>(n)\<close> of a \<open>size_t\<close> \<open>n\<close>: the low 32 bits, read as a signed number.
\<close>

definition static_cast_int :: "nat \<Rightarrow> int" where
  "static_cast_int n = (let m = int n mod 2 ^ 32 in if m < 2 ^ 31 then m else m - 2 ^ 32)"

text \<open>
  The pieces that successive calls of \<open>std::getline(stream, piece, delim)\<close> deliver until the
  call fails: a piece ends at the delimiter or at the end of the input, and nothing is
  delivered after a final delimiter.
\<close>

fun getlines :: "char \<Rightarrow> string \<Rightarrow> string \<Rightarrow> string list" where
  "getlines delim piece [] = (if piece = [] then [] else [piece])"
| "getlines delim piece (c # cs) =
     (if c = delim then piece # getlines delim [] cs else getlines delim (piece @ [c]) cs)"

text \<open>\<open>std::to_string\<close> of a \<open>size_t\<close>: the decimal digits.\<close>

function to_string :: "nat \<Rightarrow> string" where
  "to_string n =
     (if n < 10 then [''0123456789'' ! n] else to_string (n div 10) @ [''0123456789'' ! (n mod 10)])"
  by pat_completeness auto

termination
  by (relation "measure (\<lambda>n. n)") auto

declare to_string.simps [simp del]

subsection \<open>The engine's state\<close>

text \<open>
  \<open>Transliteration::Impl\<close>. The two \<open>std::unordered_map\<close>s are maps; \<open>count(k)\<close> is
  \<open>m k \<noteq> None\<close>, and \<open>m[k]\<close> on a non-const map inserts an empty string for a missing key.
\<close>

record engine =
  charMap :: "string \<rightharpoonup> string"
  specialWords :: "string \<rightharpoonup> string"
  enableSmartCorrection :: bool
  enableAutoCorrect :: bool
  enableIndicNumbers :: bool
  enableSymbolsTransliteration :: bool
  dataDir :: string

definition charMap_at :: "engine \<Rightarrow> string \<Rightarrow> string \<times> engine" where
  "charMap_at eng key =
     (case charMap eng key of
        Some v \<Rightarrow> (v, eng)
      | None \<Rightarrow> ([], eng\<lparr>charMap := (charMap eng)(key \<mapsto> [])\<rparr>))"

subsection \<open>The correction pipeline\<close>

definition applyAutoCorrection :: "engine \<Rightarrow> string \<Rightarrow> string" where
  "applyAutoCorrection eng word =
     (case specialWords eng word of Some replacement \<Rightarrow> replacement | None \<Rightarrow> word)"

definition isVowel :: "char \<Rightarrow> bool" where
  "isVowel c \<longleftrightarrow> tolower c \<in> set ''aeiou''"

text \<open>The rules on the end of the word, which run only when the word has more than 3 bytes.\<close>

definition ending_rules :: "string \<Rightarrow> string" where
  "ending_rules word =
     (if length word > 3 then
        (let ec_0 = tolower (last word);
             ec_1 = tolower (word ! (length word - 2));
             ec_2 = tolower (word ! (length word - 3));
             ec_3 = (if length word > 3 then tolower (word ! (length word - 4)) else CHR 0x00);
             word1 =
               (if \<not> isVowel ec_0 \<and> ec_0 = CHR ''y'' then
                  substr word 0 (length word - 1) @ ''ee''
                else if \<not> (ec_0 = CHR ''a'' \<and> ec_1 = CHR ''h'' \<and> ec_2 = CHR ''h'')
                      \<and> \<not> (ec_0 = CHR ''a'' \<and> ec_1 = CHR ''n''
                            \<and> (ec_2 = CHR ''k'' \<or> ec_2 = CHR ''h'' \<or> ec_2 = CHR ''r''))
                      \<and> \<not> (ec_0 = CHR ''a'' \<and> ec_1 = CHR ''r''
                            \<and> ((ec_2 = CHR ''d'' \<and> ec_3 = CHR ''n'')
                                \<or> (ec_2 = CHR ''t'' \<and> ec_3 = CHR ''n''))) then
                  (if ec_0 = CHR ''a''
                      \<and> (ec_1 = CHR ''m''
                          \<or> (\<not> isVowel ec_1 \<and> \<not> isVowel ec_3 \<and> ec_1 \<noteq> CHR ''y''
                              \<and> ec_2 \<noteq> CHR ''e''))
                   then word @ ''a'' else word)
                else word)
         in if ec_0 = CHR ''i'' \<and> \<not> isVowel ec_1 \<and> \<not> (ec_1 = CHR ''r'' \<and> ec_2 = CHR ''r'')
            then substr word1 0 (length word1 - 1) @ ''ee''
            else word1)
      else word)"

text \<open>\<open>n\<close> before \<open>k\<close> or \<open>g\<close> becomes \<open>ng\<close>: the loop over the index \<open>i\<close>.\<close>

function velar_loop :: "string \<Rightarrow> nat \<Rightarrow> string" where
  "velar_loop word i =
     (if i < length word then
        (if tolower (word ! i) = CHR ''n'' \<and> i > 0 \<and> i + 1 < length word then
           (let next_char = tolower (word ! (i + 1)) in
            if next_char = CHR ''k'' \<or> next_char = CHR ''g''
            then velar_loop (str_replace word i 1 ''ng'') (i + 1 + 1)
            else velar_loop word (i + 1))
         else velar_loop word (i + 1))
      else word)"
  by pat_completeness auto

termination
  by (relation "measure (\<lambda>(word, i). length word - i)") (auto simp: str_replace_def)

declare velar_loop.simps [simp del]

lemma find_sub_bounds:
  "find_sub needle s = Some i \<Longrightarrow> i + length needle \<le> length s"
proof (induction s arbitrary: i)
  case Nil
  then show ?case by (simp split: if_splits)
next
  case (Cons c cs)
  then show ?case
    by (fastforce simp: prefix_def split: if_splits dest: arg_cong [where f = length])
qed

lemma str_find_bounds:
  "str_find s needle pos = Some i \<Longrightarrow> pos \<le> i \<and> i + length needle \<le> length s"
  by (auto simp: str_find_def split: if_splits dest!: find_sub_bounds)

text \<open>Gemination: \<open>ng\<close> before a vowel two places on becomes \<open>ngg\<close>.\<close>

function geminate_loop :: "string \<Rightarrow> nat option \<Rightarrow> string" where
  "geminate_loop word None = word"
| "geminate_loop word (Some pos_ng) =
     (if pos_ng \<ge> 2 \<and> pos_ng + 2 < length word \<and> isVowel (word ! (pos_ng + 2)) then
        (let word' = str_replace word pos_ng 2 ''ngg'' in
         geminate_loop word' (str_find word' ''ng'' (pos_ng + 3)))
      else geminate_loop word (str_find word ''ng'' (pos_ng + 1)))"
  by pat_completeness auto

termination
proof (relation "measure (\<lambda>(word, p). case p of None \<Rightarrow> 0 | Some pos \<Rightarrow> 1 + (length word - pos))")
  show "wf (measure (\<lambda>(word, p). case p of None \<Rightarrow> 0 | Some pos \<Rightarrow> 1 + (length word - pos)))"
    by simp
next
  fix word :: string and pos_ng :: nat and word' :: string
  assume c: "2 \<le> pos_ng \<and> pos_ng + 2 < length word \<and> isVowel (word ! (pos_ng + 2))"
    and w: "word' = str_replace word pos_ng 2 ''ngg''"
  have len: "length word' = length word + 1"
    using c w by (auto simp: str_replace_def)
  show "((word', str_find word' ''ng'' (pos_ng + 3)), (word, Some pos_ng))
          \<in> measure (\<lambda>(word, p). case p of None \<Rightarrow> 0 | Some pos \<Rightarrow> 1 + (length word - pos))"
  proof (cases "str_find word' ''ng'' (pos_ng + 3)")
    case None
    then show ?thesis by simp
  next
    case (Some i)
    from str_find_bounds [OF Some] have "pos_ng + 3 \<le> i" and "i + 2 \<le> length word'"
      by simp_all
    with Some len c show ?thesis by simp
  qed
next
  fix word :: string and pos_ng :: nat
  assume c: "\<not> (2 \<le> pos_ng \<and> pos_ng + 2 < length word \<and> isVowel (word ! (pos_ng + 2)))"
  show "((word, str_find word ''ng'' (pos_ng + 1)), (word, Some pos_ng))
          \<in> measure (\<lambda>(word, p). case p of None \<Rightarrow> 0 | Some pos \<Rightarrow> 1 + (length word - pos))"
  proof (cases "str_find word ''ng'' (pos_ng + 1)")
    case None
    then show ?thesis by simp
  next
    case (Some i)
    from str_find_bounds [OF Some] have "pos_ng + 1 \<le> i" and "i + 2 \<le> length word"
      by simp_all
    with Some show ?thesis by simp
  qed
qed

declare geminate_loop.simps [simp del]

text \<open>
  The nasal before \<open>T\<close>, \<open>D\<close> and \<open>ch\<close>. The replacement for \<open>n\<close> before \<open>ch\<close> is the six bytes
  of NYA, HALANT in UTF-8.
\<close>

function nasal_loop :: "string \<Rightarrow> nat \<Rightarrow> string" where
  "nasal_loop word i =
     (if i < length word then
        (if word ! i = CHR ''n'' \<and> i + 1 < length word then
           (let next = word ! (i + 1) in
            if next = CHR ''T'' \<or> next = CHR ''D''
            then nasal_loop (str_replace word i 1 ''N'') (i + 1 + 1)
            else if next = CHR ''c'' \<and> i + 2 < length word \<and> word ! (i + 2) = CHR ''h'' then
              (if \<not> (i + 3 < length word \<and> word ! (i + 3) = CHR ''h'')
               then nasal_loop
                      (str_replace word i 1
                         [CHR 0xE0, CHR 0xA4, CHR 0x9E, CHR 0xE0, CHR 0xA5, CHR 0x8D])
                      (i + 1 + 1)
               else nasal_loop word (i + 1))
            else nasal_loop word (i + 1))
         else nasal_loop word (i + 1))
      else word)"
  by pat_completeness auto

termination
proof -
  have key: "((str_replace word i 1 t, i + 1 + 1), (word, i))
          \<in> measures [\<lambda>(word, i). length (filter (\<lambda>c. c = CHR ''n'') (drop i word)),
                       \<lambda>(word, i). length word - i]"
    if i: "i < length word" and n: "word ! i = CHR ''n''" "i + 1 < length word"
    and t: "t = ''N'' \<or> t = [CHR 0xE0, CHR 0xA4, CHR 0x9E, CHR 0xE0, CHR 0xA5, CHR 0x8D]"
    for word :: string and i :: nat and t :: string
  proof -
    have d: "drop i word = CHR ''n'' # drop (Suc i) word"
      using i n by (simp add: Cons_nth_drop_Suc [symmetric])
    have s: "drop (Suc i) word = word ! Suc i # drop (Suc (Suc i)) word"
      using n by (simp add: Cons_nth_drop_Suc [symmetric])
    have "length (filter (\<lambda>c. c = CHR ''n'') (drop (i + 1 + 1) (str_replace word i 1 t)))
          \<le> length (filter (\<lambda>c. c = CHR ''n'') (drop (Suc i) word))"
      using i n t s by (auto simp: str_replace_def)
    then have "length (filter (\<lambda>c. c = CHR ''n'') (drop (i + 1 + 1) (str_replace word i 1 t)))
          < length (filter (\<lambda>c. c = CHR ''n'') (drop i word))"
      using d by simp
    then show ?thesis by simp
  qed
  have step: "((word, i + 1), (word, i))
          \<in> measures [\<lambda>(word, i). length (filter (\<lambda>c. c = CHR ''n'') (drop i word)),
                       \<lambda>(word, i). length word - i]"
    if i: "i < length word" for word :: string and i :: nat
  proof -
    have "drop i word = word ! i # drop (Suc i) word"
      using i by (simp add: Cons_nth_drop_Suc [symmetric])
    then show ?thesis using i by auto
  qed
  show ?thesis
    apply (relation "measures [\<lambda>(word, i). length (filter (\<lambda>c. c = CHR ''n'') (drop i word)),
                       \<lambda>(word, i). length word - i]")
         apply simp
        apply (rule key; simp)
       apply (rule key; simp)
      apply (rule step; simp)
     apply (rule step; simp)
    apply (rule step; simp)
    done
qed

declare nasal_loop.simps [simp del]

definition applySmartCorrection :: "string \<Rightarrow> string" where
  "applySmartCorrection input =
     (let word = ending_rules input;
          word = velar_loop word 0;
          word = geminate_loop word (str_find word ''ng'' 0)
      in nasal_loop word 0)"

definition preprocess :: "engine \<Rightarrow> string \<Rightarrow> string" where
  "preprocess eng input =
     (let processedWord = input;
          autoCorrected = applyAutoCorrection eng processedWord in
      if enableAutoCorrect eng \<and> autoCorrected \<noteq> processedWord then autoCorrected
      else if enableSmartCorrection eng then applySmartCorrection processedWord
      else processedWord)"

subsection \<open>Boundary spaces before punctuation\<close>

text \<open>\<open>prev\<close> is \<open>input[i - 1]\<close>, and \<open>None\<close> at \<open>i = 0\<close>.\<close>

fun preprocessInput_loop :: "engine \<Rightarrow> char option \<Rightarrow> string \<Rightarrow> string" where
  "preprocessInput_loop eng prev [] = []"
| "preprocessInput_loop eng prev (c # cs) =
     (if c \<in> set ''*'' then c # preprocessInput_loop eng (Some c) cs
      else (if prev \<noteq> None \<and> (c = CHR ''.'' \<or> c = CHR ''?'' \<or> charMap eng [c] \<noteq> None)
               \<and> \<not> isalnum c \<and> prev \<noteq> Some CHR '' ''
            then '' '' else [])
           @ c # preprocessInput_loop eng (Some c) cs)"

definition preprocessInput :: "engine \<Rightarrow> string \<Rightarrow> string" where
  "preprocessInput eng input = preprocessInput_loop eng None input"

subsection \<open>Longest-match transliteration of a segment\<close>

text \<open>
  The \<open>for\<close> loop over the prefix length \<open>i\<close>, from its first value down to 1. It returns
  \<open>matched\<close> and what is left of \<open>rem\<close>; when no length matches, \<open>matched\<close> is empty and
  \<open>rem\<close> is untouched.
\<close>

fun match_loop :: "engine \<Rightarrow> string \<Rightarrow> nat \<Rightarrow> (string \<times> string) \<times> engine" where
  "match_loop eng rem 0 = (([], rem), eng)"
| "match_loop eng rem (Suc n) =
     (let i = Suc n; part = substr rem 0 i in
      if length part = 1 \<and> isdigit (part ! 0) \<and> \<not> enableIndicNumbers eng
      then ((part, drop i rem), eng)
      else if length part = 1 \<and> \<not> isalnum (part ! 0) \<and> \<not> enableSymbolsTransliteration eng
      then ((part, drop i rem), eng)
      else if charMap eng part \<noteq> None
      then (case charMap_at eng part of (v, eng') \<Rightarrow> ((v, drop i rem), eng'))
      else match_loop eng rem n)"

text \<open>
  The branch taken when \<open>matched\<close> is empty: what is appended to \<open>subResult\<close>. It reads
  \<open>rem[0]\<close>, which is the terminating NUL when an empty mapped value has consumed all of
  \<open>rem\<close>.
\<close>

definition single_char :: "engine \<Rightarrow> string \<Rightarrow> string \<times> engine" where
  "single_char eng rem =
     (let c = char_at rem 0; singleChar = [c] in
      if isdigit c \<and> \<not> enableIndicNumbers eng then ([c], eng)
      else if \<not> isalnum c \<and> \<not> enableSymbolsTransliteration eng then ([c], eng)
      else if charMap eng singleChar \<noteq> None then charMap_at eng singleChar
      else ([c], eng))"

lemma match_loop_rem:
  "match_loop eng rem n = ((matched, rem'), eng') \<Longrightarrow>
     length rem' \<le> length rem \<and> (matched \<noteq> [] \<and> rem \<noteq> [] \<longrightarrow> length rem' < length rem)"
proof (induction n)
  case 0
  then show ?case by simp
next
  case (Suc n)
  then show ?case
    by (auto simp: Let_def substr_def split: if_splits prod.splits)
qed

text \<open>
  The \<open>while (!rem.empty())\<close> loop. The \<open>for\<close> loop starts at
  \<open>int i = static_cast<int>(rem.size())\<close> and runs while \<open>i > 0\<close>: not at all when the cast
  is negative.
\<close>

function consume :: "engine \<Rightarrow> string \<Rightarrow> string \<Rightarrow> string \<times> engine" where
  "consume eng rem subResult =
     (if rem = [] then (subResult, eng)
      else
        (case match_loop eng rem (nat (static_cast_int (length rem))) of
           ((matched, rem1), eng1) \<Rightarrow>
             if matched \<noteq> [] then consume eng1 rem1 (subResult @ matched)
             else
               (case single_char eng1 rem1 of
                  (out, eng2) \<Rightarrow> consume eng2 (drop 1 rem1) (subResult @ out))))"
  by pat_completeness auto

termination
proof (relation "measure (\<lambda>(eng, rem, subResult). length rem)")
  show "wf (measure (\<lambda>(eng, rem, subResult). length rem))"
    by simp
next
  fix eng eng1 :: engine and rem subResult matched rem1 :: string and x :: "string \<times> string"
  assume "rem \<noteq> []"
    and "(x, eng1) = match_loop eng rem (nat (static_cast_int (length rem)))"
    and "(matched, rem1) = x" and "matched \<noteq> []"
  then have "match_loop eng rem (nat (static_cast_int (length rem))) = ((matched, rem1), eng1)"
    by simp
  from match_loop_rem [OF this] \<open>rem \<noteq> []\<close> \<open>matched \<noteq> []\<close>
  show "((eng1, rem1, subResult @ matched), (eng, rem, subResult))
          \<in> measure (\<lambda>(eng, rem, subResult). length rem)"
    by simp
next
  fix eng eng1 eng2 :: engine and rem subResult matched rem1 out :: string
    and x :: "string \<times> string"
  assume "rem \<noteq> []"
    and "(x, eng1) = match_loop eng rem (nat (static_cast_int (length rem)))"
    and "(matched, rem1) = x" and "\<not> matched \<noteq> []"
    and "(out, eng2) = single_char eng1 rem1"
  then have "match_loop eng rem (nat (static_cast_int (length rem))) = ((matched, rem1), eng1)"
    by simp
  from match_loop_rem [OF this] \<open>rem \<noteq> []\<close>
  show "((eng2, drop 1 rem1, subResult @ out), (eng, rem, subResult))
          \<in> measure (\<lambda>(eng, rem, subResult). length rem)"
    by (cases rem1) auto
qed

declare consume.simps [simp del]

text \<open>The trailing-halant correction: HALANT is the bytes E0 A5 8D.\<close>

definition resultEndsWithHalanta :: "string \<Rightarrow> bool" where
  "resultEndsWithHalanta subResult \<longleftrightarrow>
     length subResult \<ge> 3
     \<and> subResult ! (length subResult - 3) = CHR 0xE0
     \<and> subResult ! (length subResult - 2) = CHR 0xA5
     \<and> subResult ! (length subResult - 1) = CHR 0x8D"

definition originalEndsWithHalanta :: "string \<Rightarrow> bool" where
  "originalEndsWithHalanta subSegment \<longleftrightarrow> subSegment \<noteq> [] \<and> last subSegment = CHR 0x5C"

definition trailing_halant :: "string \<Rightarrow> string \<Rightarrow> string" where
  "trailing_halant subSegment subResult =
     (if resultEndsWithHalanta subResult \<and> \<not> originalEndsWithHalanta subSegment
         \<and> length subSegment > 1
      then take (length subResult - 3) subResult
      else subResult)"

definition transliterate_subSegment :: "engine \<Rightarrow> string \<Rightarrow> string \<times> engine" where
  "transliterate_subSegment eng subSegment =
     (case consume eng subSegment [] of
        (subResult, eng') \<Rightarrow> (trailing_halant subSegment subResult, eng'))"

fun subSegment_loop :: "engine \<Rightarrow> string list \<Rightarrow> string \<Rightarrow> string \<times> engine" where
  "subSegment_loop eng [] result = (result, eng)"
| "subSegment_loop eng (subSegment # rest) result =
     (if subSegment \<noteq> [] then
        (case transliterate_subSegment eng subSegment of
           (subResult, eng') \<Rightarrow> subSegment_loop eng' rest (result @ subResult))
      else subSegment_loop eng rest result)"

definition transliterateSegment :: "engine \<Rightarrow> string \<Rightarrow> string \<times> engine" where
  "transliterateSegment eng input = subSegment_loop eng (getlines CHR ''/'' [] input) []"

subsection \<open>The public operation\<close>

text \<open>
  Masking of the literal spans. \<open>engTokens\<close> is a \<open>std::unordered_map\<close> that is iterated
  later, so it is an association list; \<open>engTokens[mask] = v\<close> overwrites or adds.
\<close>

fun assign :: "(string \<times> string) list \<Rightarrow> string \<Rightarrow> string \<Rightarrow> (string \<times> string) list" where
  "assign [] k v = [(k, v)]"
| "assign ((k', v') # kvs) k v = (if k' = k then (k, v) # kvs else (k', v') # assign kvs k v)"

function mask_loop ::
  "string \<Rightarrow> nat \<Rightarrow> nat \<Rightarrow> (string \<times> string) list \<Rightarrow> string \<times> (string \<times> string) list" where
  "mask_loop processed tokenCount endIndex engTokens =
     (case str_find processed ''{'' endIndex of
        None \<Rightarrow> (processed, engTokens)
      | Some beginIndex \<Rightarrow>
          (let endIndex1 =
                 (case str_find processed ''}'' (beginIndex + 1) of
                    None \<Rightarrow> length processed - 1
                  | Some e \<Rightarrow> e);
               token = substr processed beginIndex (endIndex1 - beginIndex + 1);
               mask = ''$-'' @ to_string tokenCount @ ''-$'';
               engTokens1 = assign engTokens mask (substr token 1 (size_t_minus (length token) 2));
               processed1 = str_replace processed beginIndex (length token) mask
           in mask_loop processed1 (tokenCount + 1) (beginIndex + length mask) engTokens1))"
  by pat_completeness auto

termination
proof (relation "measure (\<lambda>(processed, tokenCount, endIndex, engTokens). length processed - endIndex)")
  show "wf (measure (\<lambda>(processed, tokenCount, endIndex, engTokens). length processed - endIndex))"
    by simp
next
  fix processed :: string and tokenCount endIndex :: nat and engTokens :: "(string \<times> string) list"
    and beginIndex endIndex1 :: nat and token mask :: string
    and engTokens1 :: "(string \<times> string) list" and processed1 :: string
  assume b: "str_find processed ''{'' endIndex = Some beginIndex"
    and e: "endIndex1 = (case str_find processed ''}'' (beginIndex + 1) of
                           None \<Rightarrow> length processed - 1 | Some e \<Rightarrow> e)"
    and t: "token = substr processed beginIndex (endIndex1 - beginIndex + 1)"
    and m: "mask = ''$-'' @ to_string tokenCount @ ''-$''"
    and p: "processed1 = str_replace processed beginIndex (length token) mask"
  from str_find_bounds [OF b] have b1: "endIndex \<le> beginIndex" "beginIndex < length processed"
    by simp_all
  have e1: "beginIndex \<le> endIndex1 \<and> endIndex1 < length processed"
  proof (cases "str_find processed ''}'' (beginIndex + 1)")
    case None
    then show ?thesis using e b1 by auto
  next
    case (Some i)
    from str_find_bounds [OF Some] show ?thesis using e Some by simp
  qed
  have lt: "length token = endIndex1 - beginIndex + 1"
    using t e1 by (auto simp: substr_def)
  have "length processed1 - (beginIndex + length mask) = length processed - (endIndex1 + 1)"
    using p lt e1 by (simp add: str_replace_def)
  then show "((processed1, tokenCount + 1, beginIndex + length mask, engTokens1),
              (processed, tokenCount, endIndex, engTokens))
          \<in> measure (\<lambda>(processed, tokenCount, endIndex, engTokens). length processed - endIndex)"
    using e1 b1 by auto
qed

declare mask_loop.simps [simp del]

text \<open>The loop over the space-separated segments.\<close>

fun segment_loop :: "engine \<Rightarrow> string list \<Rightarrow> string \<Rightarrow> bool \<Rightarrow> string \<times> engine" where
  "segment_loop eng [] result first = (result, eng)"
| "segment_loop eng (segment # rest) result first =
     (if segment \<noteq> [] then
        (let result1 = (if \<not> first then result @ '' '' else result) in
         if length segment = 1 \<and> isdigit (segment ! 0) \<and> \<not> enableIndicNumbers eng
         then segment_loop eng rest (result1 @ segment) False
         else if length segment = 1 \<and> \<not> isalnum (segment ! 0)
                 \<and> \<not> enableSymbolsTransliteration eng
         then segment_loop eng rest (result1 @ segment) False
         else if length segment = 1 \<and> charMap eng segment \<noteq> None
         then (case charMap_at eng segment of
                 (v, eng') \<Rightarrow> segment_loop eng' rest (result1 @ v) False)
         else
           (let cleaned = preprocess eng segment in
            case transliterateSegment eng cleaned of
              (out, eng') \<Rightarrow> segment_loop eng' rest (result1 @ out) False))
      else segment_loop eng rest result first)"

text \<open>
  Putting the literal text back. The inner \<open>while\<close> loop searches for \<open>translatedMask\<close> from
  \<open>pos\<close> on; it need not end, so not returning is \<open>None\<close>.
\<close>

partial_function (option) replace_loop :: "string \<Rightarrow> string \<Rightarrow> string \<Rightarrow> nat \<Rightarrow> string option" where
  "replace_loop result translatedMask original pos =
     (case str_find result translatedMask pos of
        None \<Rightarrow> Some result
      | Some p \<Rightarrow>
          replace_loop (str_replace result p (length translatedMask) original)
            translatedMask original (p + length original))"

fun restore_loop :: "engine \<Rightarrow> (string \<times> string) list \<Rightarrow> string \<Rightarrow> (string \<times> engine) option" where
  "restore_loop eng [] result = Some (result, eng)"
| "restore_loop eng ((mask_token, original) # rest) result =
     (case transliterateSegment eng mask_token of
        (translatedMask, eng') \<Rightarrow>
          (case replace_loop result translatedMask original 0 of
             None \<Rightarrow> None
           | Some result' \<Rightarrow> restore_loop eng' rest result'))"

text \<open>
  A \<open>std::unordered_map\<close> is iterated in an order that the standard library chooses. The
  parameter \<open>rank\<close> stands for that choice: the entries are visited by increasing rank of
  their keys, so every order of entries with different keys comes from some \<open>rank\<close>.
\<close>

definition iteration_order :: "(string \<Rightarrow> nat) \<Rightarrow> (string \<times> string) list \<Rightarrow> (string \<times> string) list" where
  "iteration_order rank entries = sort_key (\<lambda>entry. rank (fst entry)) entries"

definition transliterate :: "(string \<Rightarrow> nat) \<Rightarrow> engine \<Rightarrow> string \<Rightarrow> (string \<times> engine) option" where
  "transliterate rank eng input =
     (let preprocessed = preprocessInput eng input in
      case mask_loop preprocessed 1 0 [] of
        (processed, engTokens) \<Rightarrow>
          (case segment_loop eng (getlines CHR '' '' [] processed) [] True of
             (result, eng1) \<Rightarrow> restore_loop eng1 (iteration_order rank engTokens) result))"

subsection \<open>Loading the tables\<close>

text \<open>
  \<open>s.erase(0, s.find_first_not_of(" \t"))\<close> followed by
  \<open>s.erase(s.find_last_not_of(" \t") + 1)\<close>; a string of blanks only becomes empty.
\<close>

definition is_blank :: "char \<Rightarrow> bool" where
  "is_blank c \<longleftrightarrow> c = CHR '' '' \<or> c = CHR 0x09"

definition trim :: "string \<Rightarrow> string" where
  "trim s = rev (dropWhile is_blank (rev (dropWhile is_blank s)))"

text \<open>The body of the line loop of \<open>parseSpecialWordsToml\<close>, on the state \<open>(section, specialWords_)\<close>.\<close>

definition specialWords_line ::
  "string \<times> (string \<rightharpoonup> string) \<Rightarrow> string \<Rightarrow> string \<times> (string \<rightharpoonup> string)" where
  "specialWords_line st line0 =
     (case st of
        (section, sw) \<Rightarrow>
          (let line = trim line0 in
           if line = [] \<or> line ! 0 = CHR ''#'' then st
           else if line ! 0 = CHR ''['' \<and> last line = CHR '']''
           then (substr line 1 (length line - 2), sw)
           else if section \<noteq> ''specialWords'' then st
           else
             (case str_find line ''='' 0 of
                None \<Rightarrow> st
              | Some eqPos \<Rightarrow>
                  (let key = trim (substr line 0 eqPos);
                       val = trim (drop (eqPos + 1) line);
                       val = (if length val \<ge> 2 \<and> hd val = CHR 0x22 \<and> last val = CHR 0x22
                              then substr val 1 (length val - 2) else val)
                   in (section, sw(key \<mapsto> val))))))"

definition parseSpecialWordsToml :: "engine \<Rightarrow> string \<Rightarrow> engine" where
  "parseSpecialWordsToml eng content =
     eng\<lparr>specialWords :=
           snd (foldl specialWords_line ([], specialWords eng) (getlines CHR 0x0A [] content))\<rparr>"

text \<open>The \<open>unquote\<close> lambda of \<open>parseMappingsToml\<close>: strip matching quotes, then unescape.\<close>

fun unescape :: "string \<Rightarrow> string" where
  "unescape (c # next # cs) =
     (if c = CHR 0x5C then
        (if next = CHR 0x5C then CHR 0x5C
         else if next = CHR ''n'' then CHR 0x0A
         else if next = CHR ''t'' then CHR 0x09
         else next) # unescape cs
      else c # unescape (next # cs))"
| "unescape cs = cs"

definition unquote :: "string \<Rightarrow> string" where
  "unquote str =
     unescape
       (if length str \<ge> 2 \<and> ((hd str = CHR 0x22 \<and> last str = CHR 0x22)
                              \<or> (hd str = CHR 0x27 \<and> last str = CHR 0x27))
        then substr str 1 (length str - 2) else str)"

text \<open>
  The body of the line loop of \<open>parseMappingsToml\<close>, on the state
  \<open>(section, charMap_, consonantMap)\<close>. The local \<open>consonantMap\<close> is iterated afterwards, so it
  is an association list.
\<close>

definition mappings_line ::
  "string \<times> (string \<rightharpoonup> string) \<times> (string \<times> string) list \<Rightarrow> string
     \<Rightarrow> string \<times> (string \<rightharpoonup> string) \<times> (string \<times> string) list" where
  "mappings_line st line0 =
     (case st of
        (section, cm, consonantMap) \<Rightarrow>
          (let line = trim line0 in
           if line = [] \<or> line ! 0 = CHR ''#'' then st
           else if line ! 0 = CHR ''['' \<and> last line = CHR '']''
           then (substr line 1 (length line - 2), cm, consonantMap)
           else
             (case str_find line ''='' 0 of
                None \<Rightarrow> st
              | Some eqPos \<Rightarrow>
                  (let key = substr line 0 eqPos;
                       val = drop (eqPos + 1) line;
                       val = (case str_find val ''#'' 0 of
                                Some commentPos \<Rightarrow> substr val 0 commentPos
                              | None \<Rightarrow> val);
                       key = unquote (trim key);
                       val = unquote (trim val)
                   in if section = ''charMap'' then (section, cm(key \<mapsto> val), consonantMap)
                      else if section = ''consonantMap''
                      then (section, cm, assign consonantMap key val)
                      else st))))"

text \<open>\<open>if (!charMap_.count(k)) charMap_[k] = v\<close>.\<close>

definition add_absent :: "(string \<rightharpoonup> string) \<Rightarrow> string \<Rightarrow> string \<Rightarrow> (string \<rightharpoonup> string)" where
  "add_absent cm k v = (if cm k = None then cm(k \<mapsto> v) else cm)"

text \<open>The entries derived from one consonant; the suffixes are the UTF-8 bytes of the matras
  AA, I, II, U, UU, VOCALIC R, E, AI, O, AU and of HALANT.\<close>

definition derive_consonant :: "(string \<rightharpoonup> string) \<Rightarrow> string \<times> string \<Rightarrow> (string \<rightharpoonup> string)" where
  "derive_consonant cm entry =
     (case entry of
        (conso, val) \<Rightarrow>
          (let consoMinusA = (if length conso > 1 \<and> last conso = CHR ''a''
                              then substr conso 0 (length conso - 1) else conso);
               cm = add_absent cm conso val;
               cm = add_absent cm (conso @ ''a'') (val @ [CHR 0xE0, CHR 0xA4, CHR 0xBE]);
               cm = add_absent cm (consoMinusA @ ''i'') (val @ [CHR 0xE0, CHR 0xA4, CHR 0xBF]);
               cm = add_absent cm (consoMinusA @ ''ee'') (val @ [CHR 0xE0, CHR 0xA5, CHR 0x80]);
               cm = add_absent cm (consoMinusA @ ''u'') (val @ [CHR 0xE0, CHR 0xA5, CHR 0x81]);
               cm = add_absent cm (consoMinusA @ ''oo'') (val @ [CHR 0xE0, CHR 0xA5, CHR 0x82]);
               cm = add_absent cm (consoMinusA @ ''rri'') (val @ [CHR 0xE0, CHR 0xA5, CHR 0x83]);
               cm = add_absent cm (consoMinusA @ ''e'') (val @ [CHR 0xE0, CHR 0xA5, CHR 0x87]);
               cm = add_absent cm (consoMinusA @ ''ai'') (val @ [CHR 0xE0, CHR 0xA5, CHR 0x88]);
               cm = add_absent cm (consoMinusA @ ''o'') (val @ [CHR 0xE0, CHR 0xA5, CHR 0x8B]);
               cm = add_absent cm (consoMinusA @ ''au'') (val @ [CHR 0xE0, CHR 0xA5, CHR 0x8C])
           in add_absent cm consoMinusA (val @ [CHR 0xE0, CHR 0xA5, CHR 0x8D])))"

definition parseMappingsToml :: "(string \<Rightarrow> nat) \<Rightarrow> engine \<Rightarrow> string \<Rightarrow> engine" where
  "parseMappingsToml rank eng content =
     (case foldl mappings_line ([], charMap eng, []) (getlines CHR 0x0A [] content) of
        (section, cm, consonantMap) \<Rightarrow>
          eng\<lparr>charMap := foldl derive_consonant cm (iteration_order rank consonantMap)\<rparr>)"

subsection \<open>The velar rule in the words of the specification\<close>

text \<open>
  Scanning left to right, an \<open>n\<close> (of either case) immediately followed by \<open>k\<close> or \<open>g\<close> (of
  either case) becomes \<open>ng\<close>. This definition is not taken from the code: it is what the loop
  \<open>velar_loop\<close> is compared with.
\<close>

fun n_before_velar :: "string \<Rightarrow> string" where
  "n_before_velar (c # d # cs) =
     (if tolower c = CHR ''n'' \<and> (tolower d = CHR ''k'' \<or> tolower d = CHR ''g'')
      then ''ng'' @ n_before_velar (d # cs)
      else c # n_before_velar (d # cs))"
| "n_before_velar cs = cs"

subsection \<open>Longest match in the words of the specification\<close>






subsection \<open>The lines that assign a value\<close>

text \<open>
  Names for what the two line loops test: \<open>key_value_line line eqPos\<close> says that the trimmed
  line is not skipped as blank, comment or section header and that its first \<open>=\<close> is at
  \<open>eqPos\<close>; \<open>unterminated v\<close> says that the value text \<open>v\<close> opens with a double quote that is
  never closed.
\<close>

definition key_value_line :: "string \<Rightarrow> nat \<Rightarrow> bool" where
  "key_value_line line0 eqPos \<longleftrightarrow>
     (let line = trim line0 in
      line \<noteq> [] \<and> line ! 0 \<noteq> CHR ''#'' \<and> \<not> (line ! 0 = CHR ''['' \<and> last line = CHR '']'')
      \<and> str_find line ''='' 0 = Some eqPos)"

definition unterminated :: "string \<Rightarrow> bool" where
  "unterminated v \<longleftrightarrow> v \<noteq> [] \<and> hd v = CHR 0x22 \<and> (length v < 2 \<or> last v \<noteq> CHR 0x22)"

subsection \<open>Sample environments and engines\<close>

text \<open>A sample ICU environment: nothing is punctuation, every code unit is a cluster.\<close>

definition icu_sample :: icu where
  "icu_sample = \<lparr> u_ispunct = (\<lambda>c. False),
                   characterBreaks = (\<lambda>u. Some [0 ..< length u + 1]) \<rparr>"

text \<open>
  An environment in which \<open>createCharacterInstance\<close> fails, and one whose iterator reports
  every string as a single cluster: its boundaries are the start and the end.
\<close>

definition icu_no_iterator :: icu where
  "icu_no_iterator = \<lparr> u_ispunct = (\<lambda>c. False), characterBreaks = (\<lambda>u. None) \<rparr>"

definition icu_one_cluster :: icu where
  "icu_one_cluster = \<lparr> u_ispunct = (\<lambda>c. False),
                        characterBreaks = (\<lambda>u. Some [0, length u]) \<rparr>"

text \<open>The iteration order that ranks every key alike visits the entries as they were added.\<close>

definition rank0 :: "string \<Rightarrow> nat" where
  "rank0 k = 0"

text \<open>An engine with empty tables and every feature enabled, as the constructor sets them.\<close>

definition engine0 :: engine where
  "engine0 = \<lparr> charMap = Map.empty, specialWords = Map.empty,
               enableSmartCorrection = True, enableAutoCorrect = True,
               enableIndicNumbers = True, enableSymbolsTransliteration = True,
               dataDir = [] \<rparr>"

text \<open>
  An engine whose special words hold one entry that changes its key and one that maps its
  key to itself.
\<close>

definition engine_words :: engine where
  "engine_words =
     engine0\<lparr>specialWords := [''pani'' \<mapsto> ''paanee'', ''nadi'' \<mapsto> ''nadi'']\<rparr>"

text \<open>
  An engine whose mapping table has the keys \<open>ka\<close> (KA), \<open>k\<close> (KA, HALANT) and \<open>a\<close> (the
  vowel A), in UTF-8.
\<close>

definition engine_ka :: engine where
  "engine_ka =
     engine0\<lparr>charMap :=
       [''ka'' \<mapsto> [CHR 0xE0, CHR 0xA4, CHR 0x95],
        ''k'' \<mapsto> [CHR 0xE0, CHR 0xA4, CHR 0x95, CHR 0xE0, CHR 0xA5, CHR 0x8D],
        ''a'' \<mapsto> [CHR 0xE0, CHR 0xA4, CHR 0x85]]\<rparr>"




section \<open>Properties of the validator\<close>

lemma char32At_last_bmp:
  assumes "u \<noteq> []" and "\<not> U16_IS_TRAIL (last u)" and "\<not> U16_IS_LEAD (last u)"
  shows "char32At u (U16_BACK_1 u (length u)) = uint (last u)"
proof -
  have l: "u ! (length u - 1) = last u"
    using assms(1) by (simp add: last_conv_nth)
  have "U16_BACK_1 u (length u) = length u - 1"
    using assms(2) l by (simp add: U16_BACK_1_def)
  moreover have "length u - 1 < length u"
    using assms(1) by simp
  ultimately show ?thesis
    using assms(2,3) l by (simp add: char32At_def)
qed

text \<open>
  C4. A string whose final code point is ZWNJ (U+200C) or ZWJ (U+200D) is never a valid
  word, whatever the automaton did with that joiner: the check of the last code point comes
  after the loop and returns false.
\<close>

theorem trailing_joiner_invalid:
  assumes "u \<noteq> []" and "last u = 0x200C \<or> last u = 0x200D"
  shows "\<not> isValidDevanagariWord env u"
proof -
  have nt: "\<not> U16_IS_TRAIL (last u)" and nl: "\<not> U16_IS_LEAD (last u)"
    using assms(2) by (auto simp: U16_IS_TRAIL_def U16_IS_LEAD_def)
  have "char32At u (U16_BACK_1 u (length u)) = uint (last u)"
    by (rule char32At_last_bmp [OF assms(1) nt nl])
  then have "isZWJorZWNJ (char32At u (U16_BACK_1 u (length u)))"
    using assms(2) by (auto simp: isZWJorZWNJ_def)
  then show ?thesis
    by (simp add: isValidDevanagariWord_def Let_def split: option.splits)
qed

text \<open>
  The witness is KA, HALANT, ZWJ: the automaton consumes the joiner in \<open>AFTER_HALANT\<close> and
  ends there, and the word is rejected all the same.
\<close>

theorem trailing_joiner_invalid_witness:
  "[0x0915, 0x094D, 0x200D :: UChar] \<noteq> []
   \<and> (last [0x0915, 0x094D, 0x200D :: UChar] = 0x200C
        \<or> last [0x0915, 0x094D, 0x200D :: UChar] = 0x200D)
   \<and> validate_loop icu_sample [0x0915, 0x094D, 0x200D] 0 START = Some AFTER_HALANT
   \<and> \<not> isValidDevanagariWord icu_sample [0x0915, 0x094D, 0x200D]"
proof -
  have a: "[0x0915, 0x094D, 0x200D :: UChar] \<noteq> []" by simp
  have b: "last [0x0915, 0x094D, 0x200D :: UChar] = 0x200C
           \<or> last [0x0915, 0x094D, 0x200D :: UChar] = 0x200D" by simp
  have c: "validate_loop icu_sample [0x0915, 0x094D, 0x200D] 0 START = Some AFTER_HALANT"
    by (simp add: validate_loop.simps char32At_def U16_IS_LEAD_def U16_IS_TRAIL_def
        validate_step_def isAllowedDevanagariChar_def isZWJorZWNJ_def isDigit_def
        isDandaOrPunctuation_def icu_sample_def isDevanagariConsonant_def
        isIndependentVowel_def isHalant_def isNukta_def isDependentVowelSign_def
        isAnusvaraVisargaChandrabindu_def isAvagraha_def U16_LENGTH_def)
  show ?thesis
    using a b c trailing_joiner_invalid [OF a b, of icu_sample] by blast
qed

lemmas validate_eval =
  validate_loop.simps char32At_def U16_IS_LEAD_def U16_IS_TRAIL_def validate_step_def
  isAllowedDevanagariChar_def isZWJorZWNJ_def isDigit_def isDandaOrPunctuation_def
  isDevanagariConsonant_def isIndependentVowel_def isHalant_def isNukta_def
  isDependentVowelSign_def isAnusvaraVisargaChandrabindu_def isAvagraha_def U16_LENGTH_def
  U16_BACK_1_def

text \<open>
  C5. The count is the number of boundaries minus one only when the character break iterator
  was created. When its creation fails, \<open>graphemeCount\<close> returns the number of UTF-16 code
  units, and a single cluster of two code units is accepted: KA followed by the vowel sign I
  is counted as 2 and the automaton ends in \<open>AFTER_SYLLABLE_WITH_MATRA\<close>.
\<close>

theorem single_grapheme_accepted_counterexample:
  "characterBreaks icu_no_iterator [0x0915, 0x093F] = None
   \<and> graphemeCount icu_no_iterator [0x0915, 0x093F] = 2
   \<and> validate_loop icu_no_iterator [0x0915, 0x093F] 0 START = Some AFTER_SYLLABLE_WITH_MATRA
   \<and> isValidDevanagariWord icu_no_iterator [0x0915, 0x093F]"
proof -
  have a: "characterBreaks icu_no_iterator [0x0915, 0x093F] = None"
    by (simp add: icu_no_iterator_def)
  have b: "graphemeCount icu_no_iterator [0x0915, 0x093F] = 2"
    by (simp add: graphemeCount_def a)
  have c: "validate_loop icu_no_iterator [0x0915, 0x093F] 0 START
             = Some AFTER_SYLLABLE_WITH_MATRA"
    by (simp add: validate_eval icu_no_iterator_def)
  have d: "isValidDevanagariWord icu_no_iterator [0x0915, 0x093F]"
    by (simp add: isValidDevanagariWord_def b c char32At_def U16_BACK_1_def U16_IS_LEAD_def
        U16_IS_TRAIL_def isZWJorZWNJ_def)
  from a b c d show ?thesis
    by simp
qed

text \<open>
  C5, amended. The empty string is rejected; when the character break iterator is created,
  so is every string whose number of boundaries minus one is below 2; and when it cannot be
  created, the count is the number of UTF-16 code units, and every string of fewer than 2
  code units is rejected.
\<close>

theorem single_grapheme_invalid_with_iterator:
  "\<not> isValidDevanagariWord env []
   \<and> (characterBreaks env u = Some bs \<and> int (length bs) - 1 < 2
        \<longrightarrow> \<not> isValidDevanagariWord env u)
   \<and> (characterBreaks env u = None \<and> u \<noteq> [] \<longrightarrow> graphemeCount env u = int (length u))
   \<and> (characterBreaks env u = None \<and> length u < 2 \<longrightarrow> \<not> isValidDevanagariWord env u)"
proof (intro conjI impI)
  show "\<not> isValidDevanagariWord env []"
    by (simp add: isValidDevanagariWord_def)
next
  assume "characterBreaks env u = Some bs \<and> int (length bs) - 1 < 2"
  then have "u = [] \<or> graphemeCount env u < 2"
    by (auto simp: graphemeCount_def Let_def)
  then show "\<not> isValidDevanagariWord env u"
    by (auto simp: isValidDevanagariWord_def)
next
  assume "characterBreaks env u = None \<and> u \<noteq> []"
  then show "graphemeCount env u = int (length u)"
    by (simp add: graphemeCount_def)
next
  assume "characterBreaks env u = None \<and> length u < 2"
  then have "u = [] \<or> graphemeCount env u < 2"
    by (auto simp: graphemeCount_def)
  then show "\<not> isValidDevanagariWord env u"
    by (auto simp: isValidDevanagariWord_def)
qed

text \<open>
  The witness takes the string of the counterexample under an iterator that reports it as
  one cluster, and the single code unit KA where no iterator exists.
\<close>

theorem single_grapheme_invalid_with_iterator_witness:
  "\<not> isValidDevanagariWord icu_one_cluster []
   \<and> characterBreaks icu_one_cluster [0x0915, 0x093F] = Some [0, 2]
   \<and> int (length [0, 2 :: nat]) - 1 < 2
   \<and> \<not> isValidDevanagariWord icu_one_cluster [0x0915, 0x093F]
   \<and> characterBreaks icu_no_iterator [0x0915] = None
   \<and> graphemeCount icu_no_iterator [0x0915] = 1
   \<and> \<not> isValidDevanagariWord icu_no_iterator [0x0915]"
proof -
  have a: "characterBreaks icu_one_cluster [0x0915, 0x093F] = Some [0, 2]"
    by (simp add: icu_one_cluster_def)
  have b: "int (length [0, 2 :: nat]) - 1 < 2"
    by simp
  have c: "characterBreaks icu_no_iterator [0x0915] = None"
    by (simp add: icu_no_iterator_def)
  have d: "[0x0915 :: UChar] \<noteq> []" "length [0x0915 :: UChar] < 2"
    by simp_all
  from single_grapheme_invalid_with_iterator [of icu_one_cluster "[0x0915, 0x093F]" "[0, 2]"]
    single_grapheme_invalid_with_iterator [of icu_no_iterator "[0x0915]"]
    a b c d
  show ?thesis
    by simp
qed

section \<open>Properties of the correction pipeline\<close>

lemmas loops_eval =
  velar_loop.simps geminate_loop.simps nasal_loop.simps
  str_find_def str_replace_def substr_def tolower_def isVowel_def Let_def

lemma applySmartCorrection_nadi: "applySmartCorrection ''nadi'' = ''nadee''"
proof -
  have "ending_rules ''nadi'' = ''nadee''"
    by (simp add: ending_rules_def substr_def tolower_def isVowel_def Let_def)
  then show ?thesis
    unfolding applySmartCorrection_def Let_def by (simp add: loops_eval)
qed

text \<open>
  C8. An entry of the special words whose value is its own key does not stop smart
  correction: \<open>preprocess\<close> recognises a match by the corrected word differing from the
  segment. Here \<open>nadi\<close> maps to \<open>nadi\<close>, and \<open>preprocess\<close> returns \<open>nadee\<close>.
\<close>

theorem special_word_identity_counterexample:
  "enableAutoCorrect engine_words
   \<and> specialWords engine_words ''nadi'' = Some ''nadi''
   \<and> preprocess engine_words ''nadi'' = ''nadee''
   \<and> preprocess engine_words ''nadi'' \<noteq> ''nadi''"
  by (simp add: engine_words_def engine0_def preprocess_def applyAutoCorrection_def
      applySmartCorrection_nadi)

text \<open>
  C8, amended. With auto-correct enabled, a segment that is a key of the special words with
  a value different from the key is replaced by that value, and smart correction does not
  run; when the value equals the key, the segment goes on to smart correction as if it were
  no special word.
\<close>

theorem special_word_replaces:
  assumes "enableAutoCorrect eng" and "specialWords eng segment = Some replacement"
  shows "(replacement \<noteq> segment \<longrightarrow> preprocess eng segment = replacement)
       \<and> (replacement = segment \<longrightarrow>
            preprocess eng segment =
              (if enableSmartCorrection eng then applySmartCorrection segment else segment))"
  using assms by (simp add: preprocess_def applyAutoCorrection_def)

theorem special_word_replaces_witness:
  "enableAutoCorrect engine_words
   \<and> specialWords engine_words ''pani'' = Some ''paanee''
   \<and> ''paanee'' \<noteq> ''pani''
   \<and> preprocess engine_words ''pani'' = ''paanee''
   \<and> specialWords engine_words ''nadi'' = Some ''nadi''
   \<and> enableSmartCorrection engine_words
   \<and> preprocess engine_words ''nadi'' = applySmartCorrection ''nadi''"
proof -
  have a: "enableAutoCorrect engine_words" and e: "enableSmartCorrection engine_words"
    by (simp_all add: engine_words_def engine0_def)
  have b: "specialWords engine_words ''pani'' = Some ''paanee''"
    by (simp add: engine_words_def engine0_def)
  have c: "''paanee'' \<noteq> ''pani''"
    by simp
  have d: "specialWords engine_words ''nadi'' = Some ''nadi''"
    by (simp add: engine_words_def engine0_def)
  from special_word_replaces [OF a b] special_word_replaces [OF a d] a b c d e show ?thesis
    by simp
qed

subsection \<open>The velar rule\<close>

lemma velar_loop_from:
  "0 < i \<Longrightarrow> i \<le> length word \<Longrightarrow>
     velar_loop word i = take i word @ n_before_velar (drop i word)"
proof (induction word i rule: velar_loop.induct)
  case (1 word i)
  show ?case
  proof (cases "i < length word")
    case False
    with "1.prems" show ?thesis
      by (simp add: velar_loop.simps)
  next
    case True
    note i = True
    show ?thesis
    proof (cases "i + 1 < length word")
      case False
      with i have d: "drop i word = [word ! i]"
        by (metis Cons_nth_drop_Suc Suc_eq_plus1 drop_all not_less)
      have "velar_loop word i = velar_loop word (i + 1)"
        using i False by (simp add: velar_loop.simps [of word i])
      also have "\<dots> = word"
        using i False by (subst velar_loop.simps) simp
      finally show ?thesis
        using d by (metis append_take_drop_id n_before_velar.simps(3))
    next
      case True
      have d: "drop i word = word ! i # word ! (i + 1) # drop (i + 2) word"
        using i True by (simp add: Cons_nth_drop_Suc)
      have d1: "drop (i + 1) word = word ! (i + 1) # drop (i + 2) word"
        using True by (simp add: Cons_nth_drop_Suc)
      show ?thesis
      proof (cases "tolower (word ! i) = CHR ''n''
                    \<and> (tolower (word ! (i + 1)) = CHR ''k'' \<or> tolower (word ! (i + 1)) = CHR ''g'')")
        case True
        let ?w = "str_replace word i 1 ''ng''"
        have len: "length ?w = length word + 1"
          using i by (simp add: str_replace_def)
        have "velar_loop word i = velar_loop ?w (i + 1 + 1)"
          using i \<open>i + 1 < length word\<close> True "1.prems"
          by (simp add: velar_loop.simps [of word i] Let_def)
        also have "\<dots> = take (i + 1 + 1) ?w @ n_before_velar (drop (i + 1 + 1) ?w)"
          using i \<open>i + 1 < length word\<close> True "1.prems" len
          by (intro "1.IH"(1)) auto
        also have "take (i + 1 + 1) ?w = take i word @ ''ng''"
          using i by (simp add: str_replace_def)
        also have "drop (i + 1 + 1) ?w = drop (i + 1) word"
          using i by (simp add: str_replace_def)
        finally show ?thesis
          using True d d1 by simp
      next
        case False
        have "velar_loop word i = velar_loop word (i + 1)"
          using i False by (auto simp: velar_loop.simps [of word i] Let_def)
        also have "\<dots> = take (i + 1) word @ n_before_velar (drop (i + 1) word)"
        proof (cases "tolower (word ! i) = CHR ''n'' \<and> i > 0 \<and> i + 1 < length word")
          case True
          with i False "1.prems" show ?thesis
            by (intro "1.IH"(2)) auto
        next
          case False
          with i "1.prems" show ?thesis
            by (intro "1.IH"(3)) auto
        qed
        also have "take (i + 1) word = take i word @ [word ! i]"
          using i by (simp add: take_Suc_conv_app_nth)
        finally show ?thesis
          using False d d1 by auto
      qed
    qed
  qed
qed

lemma velar_loop_0:
  "velar_loop word 0 = (case word of [] \<Rightarrow> [] | c # cs \<Rightarrow> c # n_before_velar cs)"
proof (cases word)
  case Nil
  then show ?thesis by (simp add: velar_loop.simps)
next
  case (Cons c cs)
  then have "velar_loop word 0 = velar_loop word 1"
    by (subst velar_loop.simps) simp
  also have "\<dots> = take 1 word @ n_before_velar (drop 1 word)"
    using Cons by (intro velar_loop_from) auto
  finally show ?thesis
    using Cons by simp
qed

text \<open>
  C6. An \<open>n\<close> that is the first byte of the segment is not rewritten: the loop requires
  \<open>i > 0\<close>. The segment \<open>nka\<close> is no special word, smart correction is enabled, and it
  reaches the lookup unchanged.
\<close>

theorem velar_first_char_counterexample:
  "enableSmartCorrection engine0
   \<and> specialWords engine0 ''nka'' = None
   \<and> tolower (''nka'' ! 0) = CHR ''n'' \<and> tolower (''nka'' ! 1) = CHR ''k''
   \<and> preprocess engine0 ''nka'' = ''nka''"
proof -
  have "ending_rules ''nka'' = ''nka''"
    by (simp add: ending_rules_def)
  then have "applySmartCorrection ''nka'' = ''nka''"
    unfolding applySmartCorrection_def Let_def by (simp add: loops_eval)
  then show ?thesis
    by (simp add: engine0_def preprocess_def applyAutoCorrection_def tolower_def)
qed

text \<open>
  C6, amended. When smart correction is enabled and the segment is not replaced as a
  special word, the word that leaves the ending rules is scanned from its second byte on,
  and there every \<open>n\<close> immediately followed by \<open>k\<close> or \<open>g\<close> (of either case) becomes \<open>ng\<close>;
  the first byte is copied as it is. The gemination and nasal rules then run on the result.
\<close>

theorem velar_rule_from_second_char:
  assumes "enableSmartCorrection eng"
    and "\<not> enableAutoCorrect eng \<or> applyAutoCorrection eng segment = segment"
  shows "velar_loop word 0 = (case word of [] \<Rightarrow> [] | c # cs \<Rightarrow> c # n_before_velar cs)
       \<and> preprocess eng segment =
           (let word = (case ending_rules segment of [] \<Rightarrow> []
                        | c # cs \<Rightarrow> c # n_before_velar cs);
                word = geminate_loop word (str_find word ''ng'' 0)
            in nasal_loop word 0)"
  using assms
  by (auto simp: velar_loop_0 preprocess_def applySmartCorrection_def Let_def)

theorem velar_rule_from_second_char_witness:
  "enableSmartCorrection engine0
   \<and> applyAutoCorrection engine0 ''ank'' = ''ank''
   \<and> velar_loop ''ank'' 0 = ''angk''
   \<and> preprocess engine0 ''ank'' = ''angk''"
proof -
  have a: "enableSmartCorrection engine0"
    by (simp add: engine0_def)
  have b: "applyAutoCorrection engine0 ''ank'' = ''ank''"
    by (simp add: engine0_def applyAutoCorrection_def)
  then have b': "\<not> enableAutoCorrect engine0 \<or> applyAutoCorrection engine0 ''ank'' = ''ank''"
    by simp
  have e: "ending_rules ''ank'' = ''ank''"
    by (simp add: ending_rules_def)
  have n: "n_before_velar ''nk'' = ''ngk''"
    by (simp add: tolower_def)
  from velar_rule_from_second_char [OF a b', of "''ank''"] a b show ?thesis
    by (simp add: e n loops_eval)
qed

subsection \<open>The trailing \<open>i\<close>\<close>
















section \<open>Properties of the longest-match transliterator\<close>

subsection \<open>The cast of the length\<close>

lemma nat_static_cast_int: "n < 2 ^ 31 \<Longrightarrow> nat (static_cast_int n) = n"
  by (simp add: static_cast_int_def Let_def)

lemma nat_static_cast_int_le: "nat (static_cast_int n) \<le> n"
proof -
  have "int n mod 2 ^ 32 \<le> int n"
    by (rule zmod_le_nonneg_dividend) simp
  then show ?thesis
    by (auto simp: static_cast_int_def Let_def)
qed


subsection \<open>The engine is only read\<close>

lemma charMap_at_present:
  "charMap eng key = Some v \<Longrightarrow> charMap_at eng key = (v, eng)"
  by (simp add: charMap_at_def)

lemma match_loop_engine: "snd (match_loop eng rem n) = eng"
  by (induction n) (auto simp: Let_def charMap_at_present split: prod.splits)

lemma single_char_engine: "snd (single_char eng rem) = eng"
  by (auto simp: single_char_def Let_def charMap_at_present)

lemma consume_engine: "snd (consume eng rem subResult) = eng"
proof (induction eng rem subResult rule: consume.induct)
  case (1 eng rem subResult)
  show ?case
  proof (cases "rem = []")
    case True
    then show ?thesis by (simp add: consume.simps)
  next
    case False
    obtain matched rem1 eng1
      where m: "match_loop eng rem (nat (static_cast_int (length rem))) = ((matched, rem1), eng1)"
      by (metis prod.exhaust)
    with match_loop_engine [of eng rem "nat (static_cast_int (length rem))"] have e1: "eng1 = eng"
      by simp
    show ?thesis
    proof (cases "matched \<noteq> []")
      case True
      with "1.IH"(1) [OF False m [symmetric] refl True] False m e1 show ?thesis
        by (simp add: consume.simps [of eng rem])
    next
      case False
      obtain out eng2 where s: "single_char eng1 rem1 = (out, eng2)"
        by (metis prod.exhaust)
      with single_char_engine [of eng1 rem1] e1 have e2: "eng2 = eng"
        by simp
      from "1.IH"(2) [OF \<open>rem \<noteq> []\<close> m [symmetric] refl False s [symmetric]] \<open>rem \<noteq> []\<close> m s e2 False
      show ?thesis
        by (simp add: consume.simps [of eng rem])
    qed
  qed
qed

lemma transliterate_subSegment_engine: "snd (transliterate_subSegment eng subSegment) = eng"
  using consume_engine [of eng subSegment "[]"]
  by (cases "consume eng subSegment []") (simp add: transliterate_subSegment_def)

lemma subSegment_loop_engine: "snd (subSegment_loop eng subSegments result) = eng"
proof (induction subSegments arbitrary: result)
  case Nil
  then show ?case by simp
next
  case (Cons subSegment rest)
  then show ?case
    using transliterate_subSegment_engine [of eng subSegment]
    by (auto split: prod.splits)
qed

lemma transliterateSegment_engine: "snd (transliterateSegment eng input) = eng"
  by (simp add: transliterateSegment_def subSegment_loop_engine)

lemma transliterateSegment_fst:
  "transliterateSegment eng input = (fst (transliterateSegment eng input), eng)"
  using transliterateSegment_engine [of eng input] by (metis prod.collapse)

lemma segment_loop_engine: "snd (segment_loop eng segments result first) = eng"
proof (induction segments arbitrary: result first)
  case Nil
  then show ?case by simp
next
  case (Cons segment rest)
  show ?case
  proof (cases "length segment = 1 \<and> charMap eng segment \<noteq> None")
    case True
    then obtain v where "charMap eng segment = Some v"
      by blast
    then have "charMap_at eng segment = (v, eng)"
      by (rule charMap_at_present)
    with Cons show ?thesis
      using transliterateSegment_engine [of eng "preprocess eng segment"]
      by (auto simp: Let_def split: prod.splits)
  next
    case False
    with Cons show ?thesis
      using transliterateSegment_engine [of eng "preprocess eng segment"]
      by (auto simp: Let_def split: prod.splits)
  qed
qed

lemma restore_loop_engine:
  "restore_loop eng tokens result = Some (out, eng') \<Longrightarrow> eng' = eng"
proof (induction tokens arbitrary: result)
  case Nil
  then show ?case by simp
next
  case (Cons token rest)
  obtain mask_token original where t: "token = (mask_token, original)"
    by (cases token)
  obtain translatedMask where "transliterateSegment eng mask_token = (translatedMask, eng)"
    using transliterateSegment_fst by blast
  with Cons.prems t Cons.IH show ?case
    by (auto split: option.splits)
qed

subsection \<open>One turn of the matching loop\<close>

text \<open>When no prefix of the remaining text is a key, its first byte is copied.\<close>

lemma match_loop_no_key:
  assumes "\<forall>n. 0 < n \<and> n \<le> length rem \<longrightarrow> charMap eng (take n rem) = None"
    and "j \<le> length rem" and "rem \<noteq> []"
  shows "match_loop eng rem j = (([], rem), eng)
       \<or> match_loop eng rem j = (([hd rem], tl rem), eng)"
  using assms(2)
proof (induction j)
  case 0
  then show ?case by simp
next
  case (Suc j)
  have n: "charMap eng (take (Suc j) rem) = None"
    using assms(1) Suc.prems by simp
  have t: "take (Suc 0) rem = [hd rem]" "drop (Suc 0) rem = tl rem"
    using assms(3) by (cases rem; simp)+
  from Suc n t show ?case
    by (auto simp: Let_def substr_def)
qed

lemma consume_step_no_key:
  assumes "\<forall>n. 0 < n \<and> n \<le> length rem \<longrightarrow> charMap eng (take n rem) = None"
    and "rem \<noteq> []"
  shows "consume eng rem subResult = consume eng (tl rem) (subResult @ [hd rem])"
proof -
  have h: "charMap eng [hd rem] = None"
    using assms(1) [rule_format, of 1] assms(2) by (cases rem) auto
  have c: "char_at rem 0 = hd rem"
    using assms(2) by (cases rem) (auto simp: char_at_def)
  have s: "single_char eng rem = ([hd rem], eng)"
    using h c by (auto simp: single_char_def Let_def)
  define j where "j = nat (static_cast_int (length rem))"
  have "j \<le> length rem"
    by (simp add: j_def nat_static_cast_int_le)
  from match_loop_no_key [OF assms(1) this assms(2)]
  show ?thesis
  proof
    assume "match_loop eng rem j = (([], rem), eng)"
    with assms(2) s show ?thesis
      by (subst consume.simps) (simp add: drop_Suc j_def)
  next
    assume "match_loop eng rem j = (([hd rem], tl rem), eng)"
    with assms(2) show ?thesis
      by (subst consume.simps) (simp add: j_def)
  qed
qed

lemma consume_no_key:
  assumes "\<forall>i n. 0 < n \<and> i + n \<le> length rem \<longrightarrow> charMap eng (take n (drop i rem)) = None"
  shows "consume eng rem subResult = (subResult @ rem, eng)"
  using assms
proof (induction rem arbitrary: subResult)
  case Nil
  then show ?case by (simp add: consume.simps)
next
  case (Cons c rem)
  have "\<forall>n. 0 < n \<and> n \<le> length (c # rem) \<longrightarrow> charMap eng (take n (c # rem)) = None"
    using Cons.prems [rule_format, of _ 0] by simp
  from consume_step_no_key [OF this]
  have "consume eng (c # rem) subResult = consume eng rem (subResult @ [c])"
    by simp
  moreover have "\<forall>i n. 0 < n \<and> i + n \<le> length rem \<longrightarrow> charMap eng (take n (drop i rem)) = None"
  proof (intro allI impI)
    fix i n assume "0 < n \<and> i + n \<le> length rem"
    with Cons.prems [rule_format, of n "Suc i"] show "charMap eng (take n (drop i rem)) = None"
      by simp
  qed
  ultimately show ?case
    using Cons.IH [of "subResult @ [c]"] by simp
qed









lemma applySmartCorrection_ka: "applySmartCorrection ''ka'' = ''ka''"
proof -
  have "ending_rules ''ka'' = ''ka''"
    by (simp add: ending_rules_def)
  then show ?thesis
    unfolding applySmartCorrection_def Let_def by (simp add: loops_eval)
qed

subsection \<open>The first matching length wins\<close>

lemmas translit_eval =
  transliterate_def preprocessInput_def mask_loop.simps segment_loop.simps
  transliterateSegment_def transliterate_subSegment_def trailing_halant_def
  resultEndsWithHalanta_def originalEndsWithHalanta_def consume.simps nat_static_cast_int
  single_char_def
  charMap_at_def char_at_def iteration_order_def preprocess_def applyAutoCorrection_def
  isalnum_def isalpha_def isdigit_def str_find_def str_replace_def substr_def Let_def

















subsection \<open>A call leaves the engine as it was\<close>

lemma transliterate_engine_ka:
  "transliterate rank0 engine_ka ''ka a''
     = Some ([CHR 0xE0, CHR 0xA4, CHR 0x95, CHR '' '', CHR 0xE0, CHR 0xA4, CHR 0x85], engine_ka)"
proof -
  have s: "applySmartCorrection ''ka'' = ''ka''"
    by (rule applySmartCorrection_ka)
  have k: "charMap engine_ka ''ka'' = Some [CHR 0xE0, CHR 0xA4, CHR 0x95]"
    and a: "charMap engine_ka ''a'' = Some [CHR 0xE0, CHR 0xA4, CHR 0x85]"
    and w: "specialWords engine_ka ''ka'' = None"
    and f: "enableIndicNumbers engine_ka" "enableSymbolsTransliteration engine_ka"
      "enableSmartCorrection engine_ka" "enableAutoCorrect engine_ka"
    by (simp_all add: engine_ka_def engine0_def)
  show ?thesis
    by (simp add: translit_eval s k a w f)
qed

text \<open>
  C10. A call of \<open>transliterate\<close> that returns hands back the engine it was given: the
  mapping table is indexed only at keys it holds, and the special words and the flags are
  only read. A second call with the same input on the engine the first call left therefore
  returns the same output.
\<close>

theorem transliterate_keeps_engine:
  assumes "transliterate rank eng input = Some (out, eng')"
  shows "eng' = eng
       \<and> charMap eng' = charMap eng \<and> specialWords eng' = specialWords eng
       \<and> enableSmartCorrection eng' = enableSmartCorrection eng
       \<and> enableAutoCorrect eng' = enableAutoCorrect eng
       \<and> enableIndicNumbers eng' = enableIndicNumbers eng
       \<and> enableSymbolsTransliteration eng' = enableSymbolsTransliteration eng
       \<and> transliterate rank eng' input = Some (out, eng')"
proof -
  obtain processed engTokens
    where m: "mask_loop (preprocessInput eng input) 1 0 [] = (processed, engTokens)"
    by (cases "mask_loop (preprocessInput eng input) 1 0 []")
  obtain result eng1
    where s: "segment_loop eng (getlines CHR '' '' [] processed) [] True = (result, eng1)"
    by (cases "segment_loop eng (getlines CHR '' '' [] processed) [] True")
  from segment_loop_engine [of eng "getlines CHR '' '' [] processed" "[]" True] s
  have e1: "eng1 = eng"
    by simp
  from assms m s have "restore_loop eng1 (iteration_order rank engTokens) result = Some (out, eng')"
    by (simp add: transliterate_def Let_def)
  from restore_loop_engine [OF this] e1 have "eng' = eng"
    by simp
  with assms show ?thesis
    by simp
qed

theorem transliterate_keeps_engine_witness:
  "transliterate rank0 engine_ka ''ka a''
     = Some ([CHR 0xE0, CHR 0xA4, CHR 0x95, CHR '' '', CHR 0xE0, CHR 0xA4, CHR 0x85], engine_ka)
   \<and> transliterate rank0 (snd (the (transliterate rank0 engine_ka ''ka a''))) ''ka a''
     = Some ([CHR 0xE0, CHR 0xA4, CHR 0x95, CHR '' '', CHR 0xE0, CHR 0xA4, CHR 0x85], engine_ka)"
  using transliterate_keeps_engine [OF transliterate_engine_ka] transliterate_engine_ka
  by simp

section \<open>Properties of the configuration loader\<close>

lemma specialWords_line_dom: "dom (snd st) \<subseteq> dom (snd (specialWords_line st line))"
  by (cases st) (auto simp: specialWords_line_def Let_def split: option.splits)

lemma specialWords_lines_dom: "dom (snd st) \<subseteq> dom (snd (foldl specialWords_line st lines))"
proof (induction lines arbitrary: st)
  case Nil
  then show ?case by simp
next
  case (Cons line lines)
  from specialWords_line_dom [of st line] Cons [of "specialWords_line st line"] show ?case
    by auto
qed

lemma mappings_line_dom: "dom (fst (snd st)) \<subseteq> dom (fst (snd (mappings_line st line)))"
  by (cases st) (auto simp: mappings_line_def Let_def split: option.splits)

lemma mappings_lines_dom: "dom (fst (snd st)) \<subseteq> dom (fst (snd (foldl mappings_line st lines)))"
proof (induction lines arbitrary: st)
  case Nil
  then show ?case by simp
next
  case (Cons line lines)
  from mappings_line_dom [of st line] Cons [of "mappings_line st line"] show ?case
    by auto
qed

lemma add_absent_keeps: "cm k = Some x \<Longrightarrow> add_absent cm k' v k = Some x"
  by (auto simp: add_absent_def)

lemma derive_consonant_keeps: "cm k = Some x \<Longrightarrow> derive_consonant cm entry k = Some x"
  by (cases entry) (simp add: derive_consonant_def Let_def add_absent_keeps)

lemma derive_consonants_keep: "cm k = Some x \<Longrightarrow> foldl derive_consonant cm entries k = Some x"
  by (induction entries arbitrary: cm) (simp_all add: derive_consonant_keeps)

lemma specialWords_line_key_value:
  assumes "key_value_line line eqPos" and "v = trim (drop (eqPos + 1) (trim line))"
    and "v = [] \<or> unterminated v"
  shows "specialWords_line (''specialWords'', sw) line
           = (''specialWords'', sw(trim (substr (trim line) 0 eqPos) \<mapsto> v))"
  using assms
  by (auto simp: specialWords_line_def key_value_line_def unterminated_def Let_def)

lemma unquote_unterminated: "v = [] \<or> unterminated v \<Longrightarrow> unquote v = unescape v"
  by (auto simp: unquote_def unterminated_def)

lemma mappings_line_key_value:
  assumes "key_value_line line eqPos" and "v = trim (drop (eqPos + 1) (trim line))"
    and "v = [] \<or> unterminated v"
    and "str_find (drop (eqPos + 1) (trim line)) ''#'' 0 = None"
  shows "mappings_line (''charMap'', cm, consonantMap) line
           = (''charMap'', cm(unquote (trim (substr (trim line) 0 eqPos)) \<mapsto> unescape v),
              consonantMap)"
  using assms(1,4) unquote_unterminated [OF assms(3)] assms(2)
  by (auto simp: mappings_line_def key_value_line_def Let_def)

text \<open>
  C9. Neither loader ignores a line for its value. With the active section, the line
  \<open>ram =\<close> puts \<open>ram\<close> into the table with the empty string, and the line \<open>x = "abc\<close>, whose
  quote is never closed, puts \<open>x\<close> there with the text \<open>"abc\<close>.
\<close>

theorem empty_value_counterexample:
  "specialWords (parseSpecialWordsToml engine0
       (''[specialWords]'' @ [CHR 0x0A] @ ''ram ='' @ [CHR 0x0A])) ''ram'' = Some []
   \<and> specialWords (parseSpecialWordsToml engine0
       (''[specialWords]'' @ [CHR 0x0A] @ ''x = '' @ [CHR 0x22] @ ''abc'' @ [CHR 0x0A])) ''x''
       = Some (CHR 0x22 # ''abc'')
   \<and> charMap (parseMappingsToml rank0 engine0
       (''[charMap]'' @ [CHR 0x0A] @ ''ram ='' @ [CHR 0x0A])) ''ram'' = Some []
   \<and> charMap (parseMappingsToml rank0 engine0
       (''[charMap]'' @ [CHR 0x0A] @ ''x = '' @ [CHR 0x22] @ ''abc'' @ [CHR 0x0A])) ''x''
       = Some (CHR 0x22 # ''abc'')"
  by (simp add: parseSpecialWordsToml_def parseMappingsToml_def specialWords_line_def
      mappings_line_def trim_def is_blank_def str_find_def substr_def unquote_def
      iteration_order_def engine0_def Let_def)

text \<open>
  C9, amended. A \<open>key = value\<close> line of the active section (\<open>specialWords\<close> in the one source,
  \<open>charMap\<close> in the other) whose value text is empty or opens with a double quote that is
  never closed is not ignored: its key is a key of the table after loading, and when no
  later line follows, the key is bound to the empty string, or to the value text with its
  opening quote kept (with the escapes resolved in the mapping source).
\<close>

theorem empty_or_unterminated_value_inserted:
  assumes "getlines CHR 0x0A [] content = before @ line # after"
    and "key_value_line line eqPos"
    and "key = trim (substr (trim line) 0 eqPos)"
    and "v = trim (drop (eqPos + 1) (trim line))"
    and "v = [] \<or> unterminated v"
    and "str_find (drop (eqPos + 1) (trim line)) ''#'' 0 = None"
  shows "(fst (foldl specialWords_line ([], specialWords eng) before) = ''specialWords'' \<longrightarrow>
            key \<in> dom (specialWords (parseSpecialWordsToml eng content))
            \<and> (after = [] \<longrightarrow> specialWords (parseSpecialWordsToml eng content) key = Some v))
       \<and> (fst (foldl mappings_line ([], charMap eng, []) before) = ''charMap'' \<longrightarrow>
            unquote key \<in> dom (charMap (parseMappingsToml rank eng content))
            \<and> (after = [] \<longrightarrow>
                 charMap (parseMappingsToml rank eng content) (unquote key) = Some (unescape v)))"
proof (intro conjI impI)
  let ?st = "foldl specialWords_line ([], specialWords eng) before"
  assume s: "fst ?st = ''specialWords''"
  then have st: "?st = (''specialWords'', snd ?st)"
    by (metis prod.collapse)
  have l: "specialWords_line ?st line = (''specialWords'', (snd ?st)(key \<mapsto> v))"
    using specialWords_line_key_value [OF assms(2,4,5), of "snd ?st"] st assms(3) by simp
  have f: "specialWords (parseSpecialWordsToml eng content)
             = snd (foldl specialWords_line (specialWords_line ?st line) after)"
    by (simp add: parseSpecialWordsToml_def assms(1))
  have "key \<in> dom (snd (specialWords_line ?st line))"
    using l by simp
  with specialWords_lines_dom [of "specialWords_line ?st line" after] f
  show "key \<in> dom (specialWords (parseSpecialWordsToml eng content))"
    by auto
  show "specialWords (parseSpecialWordsToml eng content) key = Some v" if "after = []"
    using that f l by simp
next
  let ?st = "foldl mappings_line ([], charMap eng, []) before"
  assume s: "fst ?st = ''charMap''"
  then have st: "?st = (''charMap'', fst (snd ?st), snd (snd ?st))"
    by (metis prod.collapse)
  have l: "mappings_line ?st line
             = (''charMap'', (fst (snd ?st))(unquote key \<mapsto> unescape v), snd (snd ?st))"
    using mappings_line_key_value [OF assms(2,4,5,6), of "fst (snd ?st)" "snd (snd ?st)"]
      st assms(3) by simp
  obtain sect cm consonantMap
    where e: "foldl mappings_line (mappings_line ?st line) after = (sect, cm, consonantMap)"
    by (metis prod.exhaust)
  have f: "charMap (parseMappingsToml rank eng content)
             = foldl derive_consonant cm (iteration_order rank consonantMap)"
    using e by (simp add: parseMappingsToml_def assms(1))
  have "unquote key \<in> dom (fst (snd (mappings_line ?st line)))"
    using l by simp
  with mappings_lines_dom [of "mappings_line ?st line" after] e
  have "unquote key \<in> dom cm"
    by auto
  then obtain x where "cm (unquote key) = Some x"
    by blast
  then have "foldl derive_consonant cm (iteration_order rank consonantMap) (unquote key) = Some x"
    by (rule derive_consonants_keep [where cm = cm and k = "unquote key"])
  with f show "unquote key \<in> dom (charMap (parseMappingsToml rank eng content))"
    by auto
  show "charMap (parseMappingsToml rank eng content) (unquote key) = Some (unescape v)"
    if "after = []"
  proof -
    from that e l have "cm (unquote key) = Some (unescape v)"
      by auto
    then have "foldl derive_consonant cm (iteration_order rank consonantMap) (unquote key)
                 = Some (unescape v)"
      by (rule derive_consonants_keep [where cm = cm and k = "unquote key"])
    with f show ?thesis
      by simp
  qed
qed

theorem empty_or_unterminated_value_inserted_witness:
  "key_value_line ''ram ='' 4
   \<and> fst (foldl specialWords_line ([], specialWords engine0) [''[specialWords]'']) = ''specialWords''
   \<and> specialWords (parseSpecialWordsToml engine0 (''[specialWords]'' @ [CHR 0x0A] @ ''ram =''))
         ''ram'' = Some []
   \<and> key_value_line (''x = '' @ [CHR 0x22] @ ''abc'') 2
   \<and> unterminated (CHR 0x22 # ''abc'')
   \<and> fst (foldl mappings_line ([], charMap engine0, []) [''[charMap]'']) = ''charMap''
   \<and> charMap (parseMappingsToml rank0 engine0
         (''[charMap]'' @ [CHR 0x0A] @ ''x = '' @ [CHR 0x22] @ ''abc'')) ''x''
         = Some (CHR 0x22 # ''abc'')"
proof -
  have a1: "getlines CHR 0x0A [] (''[specialWords]'' @ [CHR 0x0A] @ ''ram ='')
              = [''[specialWords]''] @ ''ram ='' # []"
    by simp
  have a2: "key_value_line ''ram ='' 4"
    by (simp add: key_value_line_def trim_def is_blank_def str_find_def)
  have a3: "''ram'' = trim (substr (trim ''ram ='') 0 4)"
    by (simp add: trim_def is_blank_def substr_def)
  have a4: "[] = trim (drop (4 + 1) (trim ''ram =''))"
    by (simp add: trim_def is_blank_def)
  have a5: "[] = [] \<or> unterminated []"
    by simp
  have a6: "str_find (drop (4 + 1) (trim ''ram ='')) ''#'' 0 = None"
    by (simp add: trim_def is_blank_def str_find_def)
  have a7: "fst (foldl specialWords_line ([], specialWords engine0) [''[specialWords]''])
              = ''specialWords''"
    by (simp add: specialWords_line_def trim_def is_blank_def substr_def)
  have b1: "getlines CHR 0x0A [] (''[charMap]'' @ [CHR 0x0A] @ ''x = '' @ [CHR 0x22] @ ''abc'')
              = [''[charMap]''] @ (''x = '' @ [CHR 0x22] @ ''abc'') # []"
    by simp
  have b2: "key_value_line (''x = '' @ [CHR 0x22] @ ''abc'') 2"
    by (simp add: key_value_line_def trim_def is_blank_def str_find_def)
  have b3: "''x'' = trim (substr (trim (''x = '' @ [CHR 0x22] @ ''abc'')) 0 2)"
    by (simp add: trim_def is_blank_def substr_def)
  have b4: "CHR 0x22 # ''abc'' = trim (drop (2 + 1) (trim (''x = '' @ [CHR 0x22] @ ''abc'')))"
    by (simp add: trim_def is_blank_def)
  have u: "unterminated (CHR 0x22 # ''abc'')"
    by (simp add: unterminated_def)
  then have b5: "CHR 0x22 # ''abc'' = [] \<or> unterminated (CHR 0x22 # ''abc'')"
    by simp
  have b6: "str_find (drop (2 + 1) (trim (''x = '' @ [CHR 0x22] @ ''abc''))) ''#'' 0 = None"
    by (simp add: trim_def is_blank_def str_find_def)
  have b7: "fst (foldl mappings_line ([], charMap engine0, []) [''[charMap]'']) = ''charMap''"
    by (simp add: mappings_line_def trim_def is_blank_def substr_def)
  have q: "unquote ''x'' = ''x''" "unescape (CHR 0x22 # ''abc'') = CHR 0x22 # ''abc''"
    by (simp_all add: unquote_def)
  from empty_or_unterminated_value_inserted [OF a1 a2 a3 a4 a5 a6, of engine0 rank0]
    empty_or_unterminated_value_inserted [OF b1 b2 b3 b4 b5 b6, of engine0 rank0]
    a2 a7 b2 u b7 q
  show ?thesis
    by simp
qed

section \<open>Totality of \<open>transliterate\<close>\<close>

subsection \<open>Putting the literals back\<close>






subsection \<open>Evaluations on the sample engines\<close>

lemma applySmartCorrection_mask1: "applySmartCorrection ''$-1-$'' = ''$-1-$''"
proof -
  have "ending_rules ''$-1-$'' = ''$-1-$''"
    by (simp add: ending_rules_def substr_def tolower_def isVowel_def Let_def)
  then show ?thesis
    unfolding applySmartCorrection_def Let_def by (simp add: loops_eval)
qed


lemma applySmartCorrection_hello: "applySmartCorrection ''hello'' = ''hello''"
proof -
  have "ending_rules ''hello'' = ''hello''"
    by (simp add: ending_rules_def substr_def tolower_def isVowel_def Let_def)
  then show ?thesis
    unfolding applySmartCorrection_def Let_def by (simp add: loops_eval)
qed

lemma applySmartCorrection_world: "applySmartCorrection ''world'' = ''world''"
proof -
  have "ending_rules ''world'' = ''world''"
    by (simp add: ending_rules_def substr_def tolower_def isVowel_def Let_def)
  then show ?thesis
    unfolding applySmartCorrection_def Let_def by (simp add: loops_eval)
qed

lemma applySmartCorrection_12: "applySmartCorrection ''12'' = ''12''"
proof -
  have "ending_rules ''12'' = ''12''"
    by (simp add: ending_rules_def)
  then show ?thesis
    unfolding applySmartCorrection_def Let_def by (simp add: loops_eval)
qed

lemma applySmartCorrection_marks: "applySmartCorrection ''?!'' = ''?!''"
proof -
  have "ending_rules ''?!'' = ''?!''"
    by (simp add: ending_rules_def)
  then show ?thesis
    unfolding applySmartCorrection_def Let_def by (simp add: loops_eval)
qed

lemma to_string_1: "to_string (Suc 0) = ''1''"
  by (simp add: to_string.simps)


lemmas mask_eval =
  mask_loop.simps str_find_def str_replace_def substr_def size_t_minus_def to_string_1 Let_def







lemma transliterate_literal_spaced:
  "transliterate rank0 engine0 ''{a.b}'' = Some (''a .b'', engine0)"
proof -
  have p: "preprocessInput engine0 ''{a.b}'' = ''{a .b}''"
    by (simp add: preprocessInput_def engine0_def isalnum_def isalpha_def isdigit_def)
  have m: "mask_loop ''{a .b}'' (Suc 0) 0 [] = (''$-1-$'', [(''$-1-$'', ''a .b'')])"
    by (simp add: mask_eval)
  have w: "preprocess engine0 ''$-1-$'' = ''$-1-$''"
    by (simp add: preprocess_def applyAutoCorrection_def engine0_def applySmartCorrection_mask1)
  have t: "transliterateSegment engine0 ''$-1-$'' = (''$-1-$'', engine0)"
    using consume_no_key [of "''$-1-$''" engine0 "[]"]
    by (simp add: transliterateSegment_def transliterate_subSegment_def trailing_halant_def
        resultEndsWithHalanta_def engine0_def)
  have r: "replace_loop ''$-1-$'' ''$-1-$'' ''a .b'' 0 = Some ''a .b''"
    by (simp add: replace_loop.simps str_find_def str_replace_def)
  show ?thesis
    by (simp add: transliterate_def p m w t r iteration_order_def)
qed

lemma transliterateSegment_engine0: "transliterateSegment engine0 ''$-1-$'' = (''$-1-$'', engine0)"
  using consume_no_key [of "''$-1-$''" engine0 "[]"]
  by (simp add: transliterateSegment_def transliterate_subSegment_def trailing_halant_def
      resultEndsWithHalanta_def engine0_def)

lemma preprocess_engine0:
  "preprocess engine0 ''$-1-$'' = ''$-1-$''" "preprocess engine0 ''hello'' = ''hello''"
  "preprocess engine0 ''world'' = ''world''" "preprocess engine0 ''12'' = ''12''"
  "preprocess engine0 ''?!'' = ''?!''"
  by (simp_all add: preprocess_def applyAutoCorrection_def engine0_def
      applySmartCorrection_mask1 applySmartCorrection_hello applySmartCorrection_world
      applySmartCorrection_12 applySmartCorrection_marks)

lemma consume_engine0: "consume engine0 rem subResult = (subResult @ rem, engine0)"
  by (rule consume_no_key) (simp add: engine0_def)

lemma transliterate_hello_world:
  "transliterate rank0 engine0 ''hello {DO NOT TOUCH} world''
     = Some (''hello DO NOT TOUCH world'', engine0)"
proof -
  have p: "preprocessInput engine0 ''hello {DO NOT TOUCH} world'' = ''hello {DO NOT TOUCH} world''"
    by (simp add: preprocessInput_def engine0_def isalnum_def isalpha_def isdigit_def)
  have m: "mask_loop ''hello {DO NOT TOUCH} world'' (Suc 0) 0 []
             = (''hello $-1-$ world'', [(''$-1-$'', ''DO NOT TOUCH'')])"
    by (simp add: mask_eval)
  have s: "segment_loop engine0 [''hello'', ''$-1-$'', ''world''] [] True
             = (''hello $-1-$ world'', engine0)"
    by (simp add: preprocess_engine0 transliterateSegment_def transliterate_subSegment_def
        consume_engine0 trailing_halant_def resultEndsWithHalanta_def)
  have r: "replace_loop ''hello $-1-$ world'' ''$-1-$'' ''DO NOT TOUCH'' 0
             = Some ''hello DO NOT TOUCH world''"
    by (simp add: replace_loop.simps str_find_def str_replace_def)
  show ?thesis
    by (simp add: transliterate_def p m s r iteration_order_def transliterateSegment_engine0
        del: segment_loop.simps)
qed

text \<open>
  C2. The literal text is taken from the input after \<open>preprocessInput\<close> has put its boundary
  spaces in, so what is put back is not the text between the braces: for \<open>{a.b}\<close> the output
  is \<open>a .b\<close>. The example of the specification, which has no punctuation between its braces,
  comes back as written.
\<close>

theorem literal_span_not_restored:
  "transliterate rank0 engine0 ''{a.b}'' = Some (''a .b'', engine0)
   \<and> transliterate rank0 engine0 ''hello {DO NOT TOUCH} world''
       = Some (''hello DO NOT TOUCH world'', engine0)"
  using transliterate_literal_spaced transliterate_hello_world by simp











end
